theory Spec2Isabelle
  imports Complex_Main "HOL-Library.Word"
begin

unbundle bit_operations_syntax

section \<open>Satellite QKD simulation (gui.py): the computational pipeline\<close>

text \<open>
  The development embeds the numeric core of \<^verbatim>\<open>QKDSatelliteSystem\<close>:
  \<^verbatim>\<open>simulate_qkd_satellite\<close> (lines 1043-1157, the part after the progress window),
  \<^verbatim>\<open>run_simulation\<close> (lines 873-894) and the counters and verdicts of
  \<^verbatim>\<open>run_animation\<close> (lines 583-587, 616-623, 719-727, 801-867).

  Conventions.
  \<^item> Python \<^verbatim>\<open>float\<close> values are modelled as \<^typ>\<open>real\<close>: arithmetic is exact, rounding
    is not modelled.
  \<^item> Python \<^verbatim>\<open>int\<close> values are \<^typ>\<open>int\<close>; list lengths, indices and stream positions are
    \<^typ>\<open>nat\<close>.
  \<^item> A \<^verbatim>\<open>str\<close> that can hold arbitrary text (the message) is a list of Unicode code
    points; the \<^verbatim>\<open>'0'\<close>/\<^verbatim>\<open>'1'\<close> strings and the fixed labels are \<^typ>\<open>string\<close>.
  \<^item> \<^verbatim>\<open>bytes\<close> is a list of 8-bit words.
  \<^item> Every exception the code can raise is a value of \<open>error\<close>; a function that can
    raise returns \<open>error + 'a\<close>.
\<close>

subsection \<open>Errors\<close>

datatype error =
    IndexError
  | ValueError
  | ZeroDivisionError
  | UnicodeEncodeError
  | UnicodeDecodeError
  | UnboundLocalError

definition bind_err :: "error + 'a \<Rightarrow> ('a \<Rightarrow> error + 'b) \<Rightarrow> error + 'b" where
  "bind_err m f = (case m of Inl e \<Rightarrow> Inl e | Inr x \<Rightarrow> f x)"

fun sequence_err :: "(error + 'a) list \<Rightarrow> error + 'a list" where
  "sequence_err [] = Inr []"
| "sequence_err (m # ms) =
     (case m of
        Inl e \<Rightarrow> Inl e
      | Inr x \<Rightarrow> (case sequence_err ms of Inl e \<Rightarrow> Inl e | Inr xs \<Rightarrow> Inr (x # xs)))"

subsection \<open>The process-wide generator \<^verbatim>\<open>np.random\<close>\<close>

text \<open>
  The generator is a library outside the repository. It is modelled by its contract: its
  state is the stream of raw outputs it will still produce (\<open>t\<close>) together with the
  number of outputs already consumed (\<open>p\<close>); each primitive consumes a fixed number of
  raw outputs and maps them into its documented range.
  \<^item> \<^verbatim>\<open>random()\<close>: a float in \<open>[0, 1)\<close> with 53 random bits;
  \<^item> \<^verbatim>\<open>uniform(low, high)\<close>: \<open>low + (high - low) * random()\<close>;
  \<^item> \<^verbatim>\<open>randint(low, high)\<close>: an integer in \<open>[low, high)\<close>, the upper end excluded;
    \<^verbatim>\<open>ValueError\<close> when \<open>low >= high\<close>;
  \<^item> \<^verbatim>\<open>choice(a, size=n)\<close>: \<open>n\<close> elements of \<open>a\<close>, each at an index drawn in
    \<open>[0, len(a))\<close>; \<^verbatim>\<open>ValueError\<close> when \<open>a\<close> is empty.
\<close>

type_synonym rng = "nat \<Rightarrow> nat"

definition random_sample :: "rng \<Rightarrow> nat \<Rightarrow> real \<times> nat" where
  "random_sample t p = (real (t p mod 2 ^ 53) / 2 ^ 53, p + 1)"

definition uniform :: "real \<Rightarrow> real \<Rightarrow> rng \<Rightarrow> nat \<Rightarrow> real \<times> nat" where
  "uniform low high t p =
     (let (u, p') = random_sample t p in (low + (high - low) * u, p'))"

definition randint :: "int \<Rightarrow> int \<Rightarrow> rng \<Rightarrow> nat \<Rightarrow> error + (int \<times> nat)" where
  "randint low high t p =
     (if low \<ge> high then Inl ValueError
      else Inr (low + int (t p mod nat (high - low)), p + 1))"

definition choice :: "'a list \<Rightarrow> nat \<Rightarrow> rng \<Rightarrow> nat \<Rightarrow> error + ('a list \<times> nat)" where
  "choice a n t p =
     (if a = [] then Inl ValueError
      else Inr (map (\<lambda>k. a ! (t (p + k) mod length a)) [0..<n], p + n))"

text \<open>\<^verbatim>\<open>''.join(xs)\<close> on a list of strings.\<close>

definition join :: "string list \<Rightarrow> string" where
  "join xs = concat xs"

subsection \<open>Text and bytes\<close>

type_synonym unicode = "nat list"
type_synonym byte = "8 word"

text \<open>
  \<^verbatim>\<open>str.encode('utf-8')\<close> in strict mode. A surrogate code point raises
  \<^verbatim>\<open>UnicodeEncodeError\<close>. No Python \<^verbatim>\<open>str\<close> holds a value above \<open>0x10FFFF\<close>; the model
  rejects such a value with the same error.
\<close>

definition utf8_encode_cp :: "nat \<Rightarrow> error + nat list" where
  "utf8_encode_cp c =
     (if c < 0x80 then Inr [c]
      else if c < 0x800 then Inr [0xC0 + c div 64, 0x80 + c mod 64]
      else if 0xD800 \<le> c \<and> c \<le> 0xDFFF then Inl UnicodeEncodeError
      else if c < 0x10000 then
        Inr [0xE0 + c div 4096, 0x80 + (c div 64) mod 64, 0x80 + c mod 64]
      else if c < 0x110000 then
        Inr [0xF0 + c div 262144, 0x80 + (c div 4096) mod 64,
             0x80 + (c div 64) mod 64, 0x80 + c mod 64]
      else Inl UnicodeEncodeError)"

fun utf8_encode_nat :: "unicode \<Rightarrow> error + nat list" where
  "utf8_encode_nat [] = Inr []"
| "utf8_encode_nat (c # cs) =
     (case utf8_encode_cp c of
        Inl e \<Rightarrow> Inl e
      | Inr bs \<Rightarrow> (case utf8_encode_nat cs of Inl e \<Rightarrow> Inl e | Inr rest \<Rightarrow> Inr (bs @ rest)))"

definition utf8_encode :: "unicode \<Rightarrow> error + byte list" where
  "utf8_encode s = (case utf8_encode_nat s of Inl e \<Rightarrow> Inl e | Inr bs \<Rightarrow> Inr (map of_nat bs))"

text \<open>
  \<^verbatim>\<open>bytes.decode('utf-8')\<close> in strict mode: well-formed UTF-8 only, so no stray or
  missing continuation byte, no overlong form, no surrogate and nothing above
  \<open>0x10FFFF\<close>; anything else raises \<^verbatim>\<open>UnicodeDecodeError\<close>.
\<close>

definition continuation :: "nat \<Rightarrow> bool" where
  "continuation b = (0x80 \<le> b \<and> b < 0xC0)"

fun utf8_decode_nat :: "nat list \<Rightarrow> error + unicode" where
  "utf8_decode_nat [] = Inr []"
| "utf8_decode_nat (b0 # bs) =
     (if b0 < 0x80 then
        (case utf8_decode_nat bs of Inl e \<Rightarrow> Inl e | Inr cs \<Rightarrow> Inr (b0 # cs))
      else if 0xC0 \<le> b0 \<and> b0 < 0xE0 then
        (case bs of
           b1 # r \<Rightarrow>
             (let c = (b0 - 0xC0) * 64 + (b1 - 0x80) in
              if continuation b1 \<and> 0x80 \<le> c then
                (case utf8_decode_nat r of Inl e \<Rightarrow> Inl e | Inr cs \<Rightarrow> Inr (c # cs))
              else Inl UnicodeDecodeError)
         | _ \<Rightarrow> Inl UnicodeDecodeError)
      else if 0xE0 \<le> b0 \<and> b0 < 0xF0 then
        (case bs of
           b1 # b2 # r \<Rightarrow>
             (let c = (b0 - 0xE0) * 4096 + (b1 - 0x80) * 64 + (b2 - 0x80) in
              if continuation b1 \<and> continuation b2 \<and> 0x800 \<le> c
                 \<and> \<not> (0xD800 \<le> c \<and> c \<le> 0xDFFF) then
                (case utf8_decode_nat r of Inl e \<Rightarrow> Inl e | Inr cs \<Rightarrow> Inr (c # cs))
              else Inl UnicodeDecodeError)
         | _ \<Rightarrow> Inl UnicodeDecodeError)
      else if 0xF0 \<le> b0 \<and> b0 < 0xF8 then
        (case bs of
           b1 # b2 # b3 # r \<Rightarrow>
             (let c = (b0 - 0xF0) * 262144 + (b1 - 0x80) * 4096 + (b2 - 0x80) * 64
                      + (b3 - 0x80) in
              if continuation b1 \<and> continuation b2 \<and> continuation b3 \<and> 0x10000 \<le> c
                 \<and> c < 0x110000 then
                (case utf8_decode_nat r of Inl e \<Rightarrow> Inl e | Inr cs \<Rightarrow> Inr (c # cs))
              else Inl UnicodeDecodeError)
         | _ \<Rightarrow> Inl UnicodeDecodeError)
      else Inl UnicodeDecodeError)"

definition utf8_decode :: "byte list \<Rightarrow> error + unicode" where
  "utf8_decode bs = utf8_decode_nat (map unat bs)"

text \<open>\<^verbatim>\<open>bytes.hex()\<close>: two lower-case hexadecimal digits per byte.\<close>

definition hex_digit :: "nat \<Rightarrow> char" where
  "hex_digit n = ''0123456789abcdef'' ! (n mod 16)"

definition hex :: "byte list \<Rightarrow> string" where
  "hex bs = concat (map (\<lambda>b. [hex_digit (unat b div 16), hex_digit (unat b mod 16)]) bs)"

text \<open>
  \<^verbatim>\<open>int(s, 2)\<close> on a string of binary digits, most significant digit first. The empty
  string and a string with any other character raise \<^verbatim>\<open>ValueError\<close>. (Python also
  accepts a sign, surrounding blanks, a \<^verbatim>\<open>0b\<close> prefix and underscores; none of these
  occurs in a string joined from \<^verbatim>\<open>'0'\<close> and \<^verbatim>\<open>'1'\<close>.)
\<close>

definition int_base2 :: "string \<Rightarrow> error + nat" where
  "int_base2 s =
     (if s = [] \<or> (\<exists>c \<in> set s. c \<noteq> CHR ''0'' \<and> c \<noteq> CHR ''1'') then Inl ValueError
      else Inr (foldl (\<lambda>a c. 2 * a + (if c = CHR ''1'' then 1 else 0)) 0 s))"

text \<open>\<^verbatim>\<open>bytes(xs)\<close> on a list of integers: \<^verbatim>\<open>ValueError\<close> unless each is in \<open>range(256)\<close>.\<close>

definition bytes :: "nat list \<Rightarrow> error + byte list" where
  "bytes xs = (if \<forall>x \<in> set xs. x < 256 then Inr (map of_nat xs) else Inl ValueError)"

text \<open>\<^verbatim>\<open>int(x)\<close> on a float: truncation towards zero.\<close>

definition int_of_float :: "real \<Rightarrow> int" where
  "int_of_float x = (if 0 \<le> x then \<lfloor>x\<rfloor> else \<lceil>x\<rceil>)"

subsection \<open>A sample of the security timeline\<close>

record security_sample =
  sample_qber :: real
  sample_status :: string

subsection \<open>The steps of \<^verbatim>\<open>simulate_qkd_satellite\<close>\<close>

definition sequence_length :: nat where
  "sequence_length = 1024"

text \<open>Lines 1046, 1047, 1050 and 1082:
  \<^verbatim>\<open>''.join(np.random.choice(['0', '1'], size=n).tolist())\<close>.\<close>

definition random_bit_string :: "nat \<Rightarrow> rng \<Rightarrow> nat \<Rightarrow> error + (string \<times> nat)" where
  "random_bit_string n t p =
     (case choice [''0'', ''1''] n t p of
        Inl e \<Rightarrow> Inl e
      | Inr (xs, p') \<Rightarrow> Inr (join xs, p'))"

text \<open>Line 1053: \<^verbatim>\<open>[i for i in range(n) if alice_bases[i] == bob_bases[i]]\<close>; an index
  beyond either string raises \<^verbatim>\<open>IndexError\<close>.\<close>

definition matching_indices_of :: "nat \<Rightarrow> string \<Rightarrow> string \<Rightarrow> error + nat list" where
  "matching_indices_of n a b =
     (if n \<le> length a \<and> n \<le> length b then Inr (filter (\<lambda>i. a ! i = b ! i) [0..<n])
      else Inl IndexError)"

text \<open>Line 1058: \<^verbatim>\<open>''.join([raw_bits[i] for i in matching_indices])\<close>.\<close>

definition extract_bits :: "string \<Rightarrow> nat list \<Rightarrow> error + string" where
  "extract_bits raw_bits matching_indices =
     (if \<forall>i \<in> set matching_indices. i < length raw_bits
      then Inr (join (map (\<lambda>i. [raw_bits ! i]) matching_indices))
      else Inl IndexError)"

text \<open>Lines 1062-1069: the error rate and the detection flag.\<close>

definition estimate_qber :: "bool \<Rightarrow> rng \<Rightarrow> nat \<Rightarrow> real \<times> bool \<times> nat" where
  "estimate_qber simulate_interception t p =
     (if simulate_interception then
        (let (qber, p') = uniform 15.0 25.0 t p in (qber, True, p'))
      else
        (let (qber, p') = uniform 2.0 8.0 t p in (qber, qber > 11.0, p')))"

text \<open>Lines 1073-1079: the length of the final key.\<close>

definition reduce_key_size :: "int \<Rightarrow> int" where
  "reduce_key_size raw_key_size =
     (let error_correction_reduction = int_of_float (real_of_int raw_key_size * 0.2);
          privacy_amplification_reduction = int_of_float (real_of_int raw_key_size * 0.1);
          final_key_size =
            raw_key_size - error_correction_reduction - privacy_amplification_reduction
      in max final_key_size 16)"

text \<open>Line 1085:
  \<^verbatim>\<open>bytes([int(final_key[i:i+8], 2) for i in range(0, len(final_key), 8)])\<close>.\<close>

definition key_bytes_of :: "string \<Rightarrow> error + byte list" where
  "key_bytes_of final_key =
     bind_err
       (sequence_err
          (map (\<lambda>i. int_base2 (take 8 (drop i final_key)))
               (filter (\<lambda>i. i mod 8 = 0) [0..<length final_key])))
       bytes"

text \<open>Line 1089: \<^verbatim>\<open>key_bytes * (len(message_bytes) // len(key_bytes) + 1)\<close>.\<close>

definition repeat_key :: "byte list \<Rightarrow> nat \<Rightarrow> error + byte list" where
  "repeat_key key_bytes n =
     (if length key_bytes = 0 then Inl ZeroDivisionError
      else Inr (concat (replicate (n div length key_bytes + 1) key_bytes)))"

text \<open>Lines 1090 and 1096: \<^verbatim>\<open>bytes([a ^ b for a, b in zip(xs, ks)])\<close>.\<close>

definition xor_bytes :: "byte list \<Rightarrow> byte list \<Rightarrow> byte list" where
  "xor_bytes xs ks = map (\<lambda>(a, b). a XOR b) (zip xs ks)"

text \<open>Line 1103: \<^verbatim>\<open>2 ** (-security_parameter / 8)\<close>.\<close>

definition leakage_bound :: "int \<Rightarrow> real" where
  "leakage_bound n = 2 powr (- real_of_int n / 8)"

text \<open>Lines 1106-1115: status, channel, compromise estimate and confidence.\<close>

definition assess_security ::
  "bool \<Rightarrow> rng \<Rightarrow> nat \<Rightarrow> (string \<times> string \<times> real \<times> real) \<times> nat" where
  "assess_security intercept_detected t p =
     (if intercept_detected then
        (let (compromise_estimate, p1) = uniform 20.0 60.0 t p;
             (confidence_level, p2) = uniform 70.0 99.0 t p1
         in ((''COMPROMISED'', ''INSECURE'', compromise_estimate, confidence_level), p2))
      else ((''SECURE'', ''SECURE'', 0.0, 99.9), p))"

text \<open>Lines 1118-1131: the loop \<^verbatim>\<open>for _ in range(20)\<close>, appending one sample per turn.\<close>

fun timeline_loop ::
  "nat \<Rightarrow> bool \<Rightarrow> rng \<Rightarrow> nat \<Rightarrow> security_sample list \<Rightarrow> security_sample list \<times> nat" where
  "timeline_loop 0 intercept_detected t p security_timeline = (security_timeline, p)"
| "timeline_loop (Suc n) intercept_detected t p security_timeline =
     (if intercept_detected then
        (let (q, p1) = uniform 12.0 25.0 t p;
             (u, p2) = random_sample t p1
         in timeline_loop n intercept_detected t p2
              (security_timeline @
                 [\<lparr>sample_qber = q,
                   sample_status = (if u < 0.7 then ''WARNING'' else ''ALERT'')\<rparr>]))
      else
        (let (q, p1) = uniform 1.0 8.0 t p;
             (u, p2) = random_sample t p1
         in timeline_loop n intercept_detected t p2
              (security_timeline @
                 [\<lparr>sample_qber = q,
                   sample_status = (if u < 0.9 then ''SECURE'' else ''CHECK'')\<rparr>])))"

subsection \<open>\<^verbatim>\<open>simulate_qkd_satellite\<close>, lines 1043-1157\<close>

text \<open>The dictionary returned at lines 1134-1157.\<close>

record simulation_result =
  original_message :: unicode
  encrypted_message :: string
  decrypted_message :: unicode
  alice_bases :: string
  bob_bases :: string
  matching_bases :: int
  matching_percentage :: real
  raw_key :: string
  raw_key_size :: int
  final_key :: string
  final_key_size :: int
  qber :: real
  qber_threshold :: real
  intercept_detected :: bool
  security_status :: string
  security_timeline :: "security_sample list"
  entropy_reduction :: real
  security_parameter :: int
  max_leakage :: real
  channel_security :: string
  compromise_estimate :: real
  confidence_level :: real


text \<open>
  The generator is read from its current state: position \<open>0\<close> of \<open>t\<close> is its next raw
  output. The progress window of lines 988-1041 draws nothing from the generator and
  computes nothing the result uses; \<open>run_simulation\<close> below records it as events.
\<close>

definition simulate_qkd_satellite :: "unicode \<Rightarrow> bool \<Rightarrow> rng \<Rightarrow> error + simulation_result" where
  "simulate_qkd_satellite message simulate_interception t =
     bind_err (random_bit_string sequence_length t 0) (\<lambda>(alice_bases, p1).
     bind_err (random_bit_string sequence_length t p1) (\<lambda>(bob_bases, p2).
     bind_err (random_bit_string sequence_length t p2) (\<lambda>(raw_bits, p3).
     bind_err (matching_indices_of sequence_length alice_bases bob_bases) (\<lambda>matching_indices.
     let matching_bases = int (length matching_indices);
         matching_percentage = (real_of_int matching_bases / real sequence_length) * 100 in
     bind_err (extract_bits raw_bits matching_indices) (\<lambda>raw_key.
     let raw_key_size = int (length raw_key);
         (qber, intercept_detected, p4) = estimate_qber simulate_interception t p3;
         final_key_size = reduce_key_size raw_key_size in
     bind_err (if final_key_size < 0 then Inl ValueError
               else random_bit_string (nat final_key_size) t p4) (\<lambda>(final_key, p5).
     bind_err (key_bytes_of final_key) (\<lambda>key_bytes.
     bind_err (utf8_encode message) (\<lambda>message_bytes.
     bind_err (repeat_key key_bytes (length message_bytes)) (\<lambda>key_repeated.
     let encrypted_message =
           xor_bytes message_bytes (take (length message_bytes) key_repeated);
         encrypted_hex = hex encrypted_message;
         decrypted_message =
           xor_bytes encrypted_message (take (length encrypted_message) key_repeated) in
     bind_err (utf8_decode decrypted_message) (\<lambda>decrypted_text.
     let qber_threshold = 10.0;
         (entropy_reduction, p6) = uniform 10.0 20.0 t p5 in
     bind_err (randint 50 200 t p6) (\<lambda>(security_parameter, p7).
     let max_leakage = leakage_bound security_parameter;
         ((security_status, channel_security, compromise_estimate, confidence_level), p8) =
           assess_security intercept_detected t p7;
         (security_timeline, p9) = timeline_loop 20 intercept_detected t p8 []
     in Inr \<lparr>original_message = message,
             encrypted_message = encrypted_hex,
             decrypted_message = decrypted_text,
             alice_bases = alice_bases,
             bob_bases = bob_bases,
             matching_bases = matching_bases,
             matching_percentage = matching_percentage,
             raw_key = raw_key,
             raw_key_size = raw_key_size,
             final_key = final_key,
             final_key_size = final_key_size,
             qber = qber,
             qber_threshold = qber_threshold,
             intercept_detected = intercept_detected,
             security_status = security_status,
             security_timeline = security_timeline,
             entropy_reduction = entropy_reduction,
             security_parameter = security_parameter,
             max_leakage = max_leakage,
             channel_security = channel_security,
             compromise_estimate = compromise_estimate,
             confidence_level = confidence_level\<rparr>)))))))))))"

subsection \<open>\<^verbatim>\<open>run_simulation\<close>, lines 873-894\<close>

text \<open>
  What the method does to the user interface is a list of events, in order. The time stamp
  that \<^verbatim>\<open>add_log_entry\<close> puts before an entry and the pacing of the progress window are
  left out; \<^verbatim>\<open>display_results\<close> is one event carrying the dictionary. The second
  component is the exception that leaves the method, if any.
\<close>

datatype ui_event =
    ShowError string string
  | SetStatus string
  | LogEntry unicode
  | ProgressStep real string
  | DisplayResults simulation_result

definition ascii :: "string \<Rightarrow> unicode" where
  "ascii s = map of_char s"

text \<open>Lines 1012-1037: the thirteen labels of the progress window, then completion.\<close>

definition steps :: "string list" where
  "steps =
     [''Generating entangled photon pairs...'',
      ''Distributing quantum states...'',
      ''Measuring quantum states...'',
      ''Performing basis reconciliation...'',
      ''Estimating quantum bit error rate...'',
      ''Error correction in progress...'',
      ''Privacy amplification...'',
      ''Generating final key...'',
      ''Encrypting message...'',
      ''Transmitting data...'',
      ''Decrypting message...'',
      ''Verifying security...'',
      ''Finalizing results...'']"

definition progress_events :: "ui_event list" where
  "progress_events =
     map (\<lambda>(i, step). ProgressStep (real i / real (length steps) * 100) step)
         (zip [0..<length steps] steps)
     @ [ProgressStep 100 ''Completed!'']"

definition run_simulation :: "unicode \<Rightarrow> bool \<Rightarrow> rng \<Rightarrow> ui_event list \<times> error option" where
  "run_simulation message simulate_interception t =
     (if message = [] then
        ([ShowError ''Error'' ''Please enter a message to encrypt''], None)
      else
        let started =
              [SetStatus ''Running simulation...'',
               LogEntry (ascii ''Starting simulation with message: '' @ [39] @ message @ [39])]
              @ (if simulate_interception
                 then [LogEntry (ascii ''Interception simulation enabled'')] else [])
        in case simulate_qkd_satellite message simulate_interception t of
             Inl e \<Rightarrow> (started @ progress_events, Some e)
           | Inr results \<Rightarrow> (started @ progress_events @ [DisplayResults results], None))"

subsection \<open>\<^verbatim>\<open>run_animation\<close>: counters and verdicts\<close>









section \<open>Verification\<close>

subsection \<open>Closed forms used in the proofs\<close>

text \<open>
  These definitions are not part of the program. They name what the pipeline computes,
  as functions of the generator's stream, so that the lemmas below can state it.
\<close>

definition bits_at :: "rng \<Rightarrow> nat \<Rightarrow> nat \<Rightarrow> string" where
  "bits_at t p n = map (\<lambda>k. if t (p + k) mod 2 = 0 then CHR ''0'' else CHR ''1'') [0..<n]"

definition base2_value :: "string \<Rightarrow> nat" where
  "base2_value s = foldl (\<lambda>a c. 2 * a + (if c = CHR ''1'' then 1 else 0)) 0 s"

definition key_chunks :: "string \<Rightarrow> nat list" where
  "key_chunks s =
     map (\<lambda>i. base2_value (take 8 (drop i s))) (filter (\<lambda>i. i mod 8 = 0) [0..<length s])"

definition run_indices :: "rng \<Rightarrow> nat list" where
  "run_indices t =
     filter (\<lambda>i. bits_at t 0 sequence_length ! i = bits_at t sequence_length sequence_length ! i)
       [0..<sequence_length]"

definition run_key_size :: "rng \<Rightarrow> int" where
  "run_key_size t = reduce_key_size (int (length (run_indices t)))"

definition run_key_bytes :: "rng \<Rightarrow> byte list" where
  "run_key_bytes t =
     map of_nat (key_chunks (bits_at t (3 * sequence_length + 1) (nat (run_key_size t))))"

definition run_keystream :: "rng \<Rightarrow> nat \<Rightarrow> byte list" where
  "run_keystream t n =
     take n (concat (replicate (n div length (run_key_bytes t) + 1) (run_key_bytes t)))"

definition run_result :: "unicode \<Rightarrow> byte list \<Rightarrow> bool \<Rightarrow> rng \<Rightarrow> simulation_result" where
  "run_result message mb si t =
     (let n = sequence_length; k = nat (run_key_size t); p5 = 3 * n + 1 + k in
      \<lparr>original_message = message,
       encrypted_message = hex (xor_bytes mb (run_keystream t (length mb))),
       decrypted_message = message,
       alice_bases = bits_at t 0 n,
       bob_bases = bits_at t n n,
       matching_bases = int (length (run_indices t)),
       matching_percentage = real_of_int (int (length (run_indices t))) / real n * 100,
       raw_key = map (\<lambda>i. bits_at t (2 * n) n ! i) (run_indices t),
       raw_key_size = int (length (run_indices t)),
       final_key = bits_at t (3 * n + 1) k,
       final_key_size = run_key_size t,
       qber = (if si then fst (uniform 15 25 t (3 * n)) else fst (uniform 2 8 t (3 * n))),
       qber_threshold = 10,
       intercept_detected = si,
       security_status = (if si then ''COMPROMISED'' else ''SECURE''),
       security_timeline =
         fst (timeline_loop 20 si t (if si then p5 + 4 else p5 + 2) []),
       entropy_reduction = fst (uniform 10 20 t p5),
       security_parameter = 50 + int (t (p5 + 1) mod 150),
       max_leakage = leakage_bound (50 + int (t (p5 + 1) mod 150)),
       channel_security = (if si then ''INSECURE'' else ''SECURE''),
       compromise_estimate = (if si then fst (uniform 20 60 t (p5 + 2)) else 0),
       confidence_level = (if si then fst (uniform 70 99 t (p5 + 3)) else 99.9)\<rparr>)"

definition sample_ok :: "bool \<Rightarrow> security_sample \<Rightarrow> bool" where
  "sample_ok d s =
     (if d then 12 \<le> sample_qber s \<and> sample_qber s \<le> 25
               \<and> (sample_status s = ''WARNING'' \<or> sample_status s = ''ALERT'')
      else 1 \<le> sample_qber s \<and> sample_qber s \<le> 8
               \<and> (sample_status s = ''SECURE'' \<or> sample_status s = ''CHECK''))"

definition timeline_sample :: "bool \<Rightarrow> rng \<Rightarrow> nat \<Rightarrow> security_sample" where
  "timeline_sample d t p =
     (if d then
        \<lparr>sample_qber = fst (uniform 12 25 t p),
         sample_status = (if fst (random_sample t (p + 1)) < 0.7 then ''WARNING'' else ''ALERT'')\<rparr>
      else
        \<lparr>sample_qber = fst (uniform 1 8 t p),
         sample_status = (if fst (random_sample t (p + 1)) < 0.9 then ''SECURE'' else ''CHECK'')\<rparr>)"


subsection \<open>The generator and the codecs\<close>

lemma bind_err_Inr [simp]: "bind_err (Inr x) f = f x"
  by (simp add: bind_err_def)

lemma bind_err_Inl [simp]: "bind_err (Inl e) f = Inl e"
  by (simp add: bind_err_def)

lemma concat_map_singleton: "concat (map (\<lambda>k. [f k]) xs) = map f xs"
  by (induction xs) simp_all

lemma bit_choice: "[''0'', ''1''] ! (x mod 2) = [if x mod 2 = 0 then CHR ''0'' else CHR ''1'']"
proof (cases "x mod 2 = 0")
  case True
  then show ?thesis by simp
next
  case False
  then have "x mod 2 = 1" by presburger
  then show ?thesis by simp
qed

lemma bit_choice_Suc:
  "[''0'', ''1''] ! (x mod Suc (Suc 0)) = [if x mod 2 = 0 then CHR ''0'' else CHR ''1'']"
proof -
  have e: "x mod Suc (Suc 0) = x mod 2" by (simp add: numeral_2_eq_2)
  show ?thesis unfolding e by (rule bit_choice)
qed

lemma random_bit_string_eq: "random_bit_string n t p = Inr (bits_at t p n, p + n)"
  by (simp add: random_bit_string_def choice_def join_def bits_at_def bit_choice_Suc
      concat_map_singleton)

lemma length_bits_at [simp]: "length (bits_at t p n) = n"
  by (simp add: bits_at_def)

lemma bits_at_binary: "c \<in> set (bits_at t p n) \<Longrightarrow> c = CHR ''0'' \<or> c = CHR ''1''"
  by (auto simp: bits_at_def)

lemma random_sample_range: "0 \<le> fst (random_sample t p) \<and> fst (random_sample t p) < 1"
  by (simp add: random_sample_def)

lemma snd_random_sample [simp]: "snd (random_sample t p) = p + 1"
  by (simp add: random_sample_def)

lemma uniform_eq: "uniform low high t p = (low + (high - low) * fst (random_sample t p), p + 1)"
  by (simp add: uniform_def random_sample_def)

lemma uniform_range:
  assumes "low \<le> high"
  shows "low \<le> fst (uniform low high t p) \<and> fst (uniform low high t p) \<le> high"
proof -
  let ?u = "fst (random_sample t p)"
  have u: "0 \<le> ?u" "?u \<le> 1" using random_sample_range [of t p] by simp_all
  have "0 \<le> (high - low) * ?u" using assms u by simp
  moreover have "(high - low) * ?u \<le> (high - low) * 1"
    using assms u by (intro mult_left_mono) simp_all
  ultimately show ?thesis by (simp add: uniform_eq)
qed

lemma randint_50_200: "randint 50 200 t p = Inr (50 + int (t p mod 150), p + 1)"
  by (simp add: randint_def)


lemma split3: "(c::nat) div 4096 * 4096 + (c div 64) mod 64 * 64 + c mod 64 = c"
proof -
  have "c div 4096 = (c div 64) div 64" by (simp add: div_mult2_eq)
  then have "c div 4096 * 64 + (c div 64) mod 64 = c div 64" by simp
  then have "(c div 4096 * 64 + (c div 64) mod 64) * 64 + c mod 64 = c" by simp
  then show ?thesis by (simp add: algebra_simps)
qed

lemma split4: "(c::nat) div 262144 * 262144 + (c div 4096) mod 64 * 4096 + (c div 64) mod 64 * 64
           + c mod 64 = c"
proof -
  have "c div 262144 = (c div 4096) div 64" by (simp add: div_mult2_eq)
  then have "c div 262144 * 64 + (c div 4096) mod 64 = c div 4096" by simp
  then have "(c div 262144 * 64 + (c div 4096) mod 64) * 4096 + (c div 64) mod 64 * 64 + c mod 64 = c"
    using split3 [of c] by simp
  then show ?thesis by (simp add: algebra_simps)
qed

lemma unat_of_nat_byte: "b < 256 \<Longrightarrow> unat (of_nat b :: byte) = b"
  by (simp add: unat_of_nat)


lemma utf8_encode_cp_bytes:
  assumes "utf8_encode_cp c = Inr bs"
  shows "\<forall>b \<in> set bs. b < 256"
proof (cases "c < 0x110000")
  case False
  with assms show ?thesis by (simp add: utf8_encode_cp_def split: if_splits)
next
  case True
  have m: "c mod 64 < 64" "(c div 64) mod 64 < 64" "(c div 4096) mod 64 < 64" by simp_all
  have d1: "c < 0x800 \<Longrightarrow> c div 64 < 32" by simp
  have d2: "c < 0x10000 \<Longrightarrow> c div 4096 < 16" by simp
  have d3: "c div 262144 < 5" using True by simp
  from assms m d1 d2 d3 show ?thesis
    by (auto simp: utf8_encode_cp_def split: if_splits)
qed

lemma utf8_decode_1:
  assumes "c < 0x80"
  shows "utf8_decode_nat ([c] @ rest) =
         (case utf8_decode_nat rest of Inl e \<Rightarrow> Inl e | Inr cs \<Rightarrow> Inr (c # cs))"
  using assms by simp

lemma utf8_decode_2:
  assumes "0x80 \<le> c" "c < 0x800"
  shows "utf8_decode_nat ([0xC0 + c div 64, 0x80 + c mod 64] @ rest) =
         (case utf8_decode_nat rest of Inl e \<Rightarrow> Inl e | Inr cs \<Rightarrow> Inr (c # cs))"
proof -
  have d: "c div 64 < 32" using assms by simp
  have m: "c mod 64 < 64" by simp
  have c: "c div 64 * 64 + c mod 64 = c" by simp
  from assms d m c show ?thesis
    by (simp add: continuation_def)
qed

lemma utf8_decode_3:
  assumes "0x800 \<le> c" "c < 0x10000" "\<not> (0xD800 \<le> c \<and> c \<le> 0xDFFF)"
  shows "utf8_decode_nat ([0xE0 + c div 4096, 0x80 + (c div 64) mod 64, 0x80 + c mod 64] @ rest) =
         (case utf8_decode_nat rest of Inl e \<Rightarrow> Inl e | Inr cs \<Rightarrow> Inr (c # cs))"
proof -
  have d: "c div 4096 < 16" using assms by simp
  have m: "c mod 64 < 64" "(c div 64) mod 64 < 64" by simp_all
  have c: "c div 4096 * 4096 + (c div 64) mod 64 * 64 + c mod 64 = c"
    by (rule split3)
  from assms d m c show ?thesis
    by (simp add: continuation_def)
qed

lemma utf8_decode_4:
  assumes "0x10000 \<le> c" "c < 0x110000"
  shows "utf8_decode_nat ([0xF0 + c div 262144, 0x80 + (c div 4096) mod 64,
           0x80 + (c div 64) mod 64, 0x80 + c mod 64] @ rest) =
         (case utf8_decode_nat rest of Inl e \<Rightarrow> Inl e | Inr cs \<Rightarrow> Inr (c # cs))"
proof -
  have d: "c div 262144 < 5" using assms by simp
  have m: "c mod 64 < 64" "(c div 64) mod 64 < 64" "(c div 4096) mod 64 < 64" by simp_all
  have c: "c div 262144 * 262144 + (c div 4096) mod 64 * 4096 + (c div 64) mod 64 * 64
           + c mod 64 = c"
    by (rule split4)
  from assms d m c show ?thesis
    by (simp add: continuation_def)
qed

lemma utf8_decode_encode_cp:
  assumes "utf8_encode_cp c = Inr bs"
  shows "utf8_decode_nat (bs @ rest) =
         (case utf8_decode_nat rest of Inl e \<Rightarrow> Inl e | Inr cs \<Rightarrow> Inr (c # cs))"
proof -
  consider "c < 0x80" | "0x80 \<le> c" "c < 0x800"
    | "0x800 \<le> c" "c < 0x10000" "\<not> (0xD800 \<le> c \<and> c \<le> 0xDFFF)"
    | "0x10000 \<le> c" "c < 0x110000"
    using assms by (fastforce simp: utf8_encode_cp_def split: if_splits)
  then show ?thesis
  proof cases
    case 1
    with assms have "bs = [c]" by (simp add: utf8_encode_cp_def)
    with 1 show ?thesis using utf8_decode_1 by simp
  next
    case 2
    with assms have "bs = [0xC0 + c div 64, 0x80 + c mod 64]"
      by (simp add: utf8_encode_cp_def)
    with 2 show ?thesis using utf8_decode_2 by simp
  next
    case 3
    with assms have "bs = [0xE0 + c div 4096, 0x80 + (c div 64) mod 64, 0x80 + c mod 64]"
      by (simp add: utf8_encode_cp_def)
    with 3 show ?thesis using utf8_decode_3 by simp
  next
    case 4
    with assms have "bs = [0xF0 + c div 262144, 0x80 + (c div 4096) mod 64,
             0x80 + (c div 64) mod 64, 0x80 + c mod 64]"
      by (simp add: utf8_encode_cp_def)
    with 4 show ?thesis using utf8_decode_4 by simp
  qed
qed

lemma utf8_roundtrip_nat:
  "utf8_encode_nat cs = Inr bs \<Longrightarrow> utf8_decode_nat bs = Inr cs"
proof (induction cs arbitrary: bs)
  case Nil
  then show ?case by simp
next
  case (Cons c cs)
  from Cons.prems obtain b rest where
    b: "utf8_encode_cp c = Inr b" and rest: "utf8_encode_nat cs = Inr rest"
    and bs: "bs = b @ rest"
    by (auto split: sum.splits)
  from Cons.IH [OF rest] have "utf8_decode_nat rest = Inr cs" .
  with utf8_decode_encode_cp [OF b, of rest] bs show ?case by simp
qed

lemma utf8_encode_nat_bytes:
  "utf8_encode_nat cs = Inr bs \<Longrightarrow> \<forall>b \<in> set bs. b < 256"
proof (induction cs arbitrary: bs)
  case Nil
  then show ?case by simp
next
  case (Cons c cs)
  from Cons.prems obtain b rest where
    b: "utf8_encode_cp c = Inr b" and rest: "utf8_encode_nat cs = Inr rest"
    and bs: "bs = b @ rest"
    by (auto split: sum.splits)
  with Cons.IH [OF rest] utf8_encode_cp_bytes [OF b] show ?case by auto
qed


lemma utf8_roundtrip:
  assumes "utf8_encode s = Inr bs"
  shows "utf8_decode bs = Inr s"
proof -
  from assms obtain ns where ns: "utf8_encode_nat s = Inr ns" and bs: "bs = map of_nat ns"
    by (auto simp: utf8_encode_def split: sum.splits)
  have "map unat bs = ns"
    unfolding bs using utf8_encode_nat_bytes [OF ns]
    by (simp add: map_idI unat_of_nat_byte)
  with utf8_roundtrip_nat [OF ns] show ?thesis by (simp add: utf8_decode_def)
qed


lemma sequence_err_map:
  "(\<And>x. x \<in> set xs \<Longrightarrow> f x = Inr (g x)) \<Longrightarrow> sequence_err (map f xs) = Inr (map g xs)"
  by (induction xs) simp_all

lemma foldl_base2_bound:
  "foldl (\<lambda>a c. 2 * a + (if c = CHR ''1'' then 1 else 0)) (a::nat) s < (a + 1) * 2 ^ length s"
proof (induction s arbitrary: a)
  case Nil
  then show ?case by simp
next
  case (Cons c s)
  have "foldl (\<lambda>a c. 2 * a + (if c = CHR ''1'' then 1 else 0))
          (2 * a + (if c = CHR ''1'' then 1 else 0)) s
        < (2 * a + (if c = CHR ''1'' then 1 else 0) + 1) * 2 ^ length s"
    by (rule Cons.IH)
  also have "\<dots> \<le> (2 * a + 2) * 2 ^ length s"
    by (intro mult_right_mono) simp_all
  also have "\<dots> = (a + 1) * 2 ^ length (c # s)" by simp
  finally show ?case by simp
qed

lemma base2_value_bound: "base2_value s < 2 ^ length s"
  using foldl_base2_bound [of 0 s] by (simp add: base2_value_def)

lemma int_base2_binary:
  assumes "s \<noteq> []" "\<forall>c \<in> set s. c = CHR ''0'' \<or> c = CHR ''1''"
  shows "int_base2 s = Inr (base2_value s)"
  using assms by (auto simp: int_base2_def base2_value_def)

lemma chunk_bound: "base2_value (take 8 (drop i s)) < 256"
proof -
  have "base2_value (take 8 (drop i s)) < 2 ^ length (take 8 (drop i s))"
    by (rule base2_value_bound)
  also have "\<dots> \<le> 2 ^ 8" by (intro power_increasing) simp_all
  finally show ?thesis by simp
qed

lemma key_bytes_of_binary:
  assumes "\<forall>c \<in> set s. c = CHR ''0'' \<or> c = CHR ''1''"
  shows "key_bytes_of s = Inr (map of_nat (key_chunks s))"
proof -
  have "sequence_err
          (map (\<lambda>i. int_base2 (take 8 (drop i s))) (filter (\<lambda>i. i mod 8 = 0) [0..<length s]))
        = Inr (map (\<lambda>i. base2_value (take 8 (drop i s)))
                 (filter (\<lambda>i. i mod 8 = 0) [0..<length s]))"
  proof (rule sequence_err_map)
    fix i assume "i \<in> set (filter (\<lambda>i. i mod 8 = 0) [0..<length s])"
    then have i: "i < length s" by simp
    then have "take 8 (drop i s) \<noteq> []" by simp
    moreover have "\<forall>c \<in> set (take 8 (drop i s)). c = CHR ''0'' \<or> c = CHR ''1''"
      using assms by (meson in_set_dropD in_set_takeD)
    ultimately show "int_base2 (take 8 (drop i s)) = Inr (base2_value (take 8 (drop i s)))"
      by (rule int_base2_binary)
  qed
  moreover have "bytes (key_chunks s) = Inr (map of_nat (key_chunks s))"
    using chunk_bound by (auto simp: bytes_def key_chunks_def)
  ultimately show ?thesis by (simp add: key_bytes_of_def key_chunks_def)
qed

lemma key_chunks_nonempty: "s \<noteq> [] \<Longrightarrow> key_chunks s \<noteq> []"
proof -
  assume "s \<noteq> []"
  then have "0 \<in> set (filter (\<lambda>i. i mod 8 = 0) [0..<length s])" by simp
  then have "filter (\<lambda>i. i mod 8 = 0) [0..<length s] \<noteq> []" by force
  then show ?thesis by (simp add: key_chunks_def)
qed

lemma length_concat_replicate: "length (concat (replicate k xs)) = k * length xs"
  by (induction k) simp_all

lemma repeat_key_covers:
  assumes "kb \<noteq> []"
  shows "n \<le> length (concat (replicate (n div length kb + 1) kb))"
proof -
  have "0 < length kb" using assms by simp
  then have "n < (n div length kb + 1) * length kb"
    using dividend_less_div_times [of "length kb" n] by (simp add: algebra_simps)
  then show ?thesis by (simp add: length_concat_replicate)
qed

lemma xor_bytes_length: "length ks = length xs \<Longrightarrow> length (xor_bytes xs ks) = length xs"
  by (simp add: xor_bytes_def)

lemma xor_bytes_involution:
  "length ks = length xs \<Longrightarrow> xor_bytes (xor_bytes xs ks) ks = xs"
proof (induction xs arbitrary: ks)
  case Nil
  then show ?case by (simp add: xor_bytes_def)
next
  case (Cons x xs)
  then obtain k ks' where ks: "ks = k # ks'" and len: "length ks' = length xs"
    by (cases ks) auto
  have "(x XOR k) XOR k = x" by (simp add: xor.assoc)
  with Cons.IH [OF len] show ?case by (simp add: xor_bytes_def ks)
qed



lemma reduce_key_size_ge: "16 \<le> reduce_key_size n"
  by (simp add: reduce_key_size_def Let_def)


lemma matching_indices_of_bits:
  "matching_indices_of n (bits_at t p n) (bits_at t q n) =
     Inr (filter (\<lambda>i. bits_at t p n ! i = bits_at t q n ! i) [0..<n])"
  by (simp add: matching_indices_of_def)

lemma extract_bits_eq:
  "\<forall>i \<in> set idx. i < length raw \<Longrightarrow> extract_bits raw idx = Inr (map (\<lambda>i. raw ! i) idx)"
  by (simp add: extract_bits_def join_def concat_map_singleton)

lemma extract_bits_filter:
  "extract_bits (bits_at t p n) (filter P [0..<n]) =
     Inr (map (\<lambda>i. bits_at t p n ! i) (filter P [0..<n]))"
  by (rule extract_bits_eq) simp

lemma estimate_qber_eq:
  "estimate_qber si t p =
     (if si then (fst (uniform 15 25 t p), True, p + 1)
      else (fst (uniform 2 8 t p), False, p + 1))"
proof -
  have "fst (uniform 2 8 t p) \<le> 8" using uniform_range [of 2 8 t p] by simp
  then have "\<not> fst (uniform 2 8 t p) > 11" by simp
  then show ?thesis by (simp add: estimate_qber_def uniform_eq)
qed

lemma assess_security_eq:
  "assess_security d t p =
     (if d then ((''COMPROMISED'', ''INSECURE'', fst (uniform 20 60 t p),
                  fst (uniform 70 99 t (p + 1))), p + 2)
      else ((''SECURE'', ''SECURE'', 0, 99.9), p))"
  by (simp add: assess_security_def uniform_eq)

lemma key_bytes_of_bits:
  "key_bytes_of (bits_at t p n) = Inr (map of_nat (key_chunks (bits_at t p n)))"
  by (rule key_bytes_of_binary) (auto dest: bits_at_binary)

lemma simulate_encode_error:
  "utf8_encode message = Inl e \<Longrightarrow> simulate_qkd_satellite message si t = Inl e"
  using reduce_key_size_ge [of "int (length (filter (\<lambda>i. bits_at t 0 sequence_length ! i = bits_at t sequence_length sequence_length ! i) [0..<sequence_length]))"]
  by (simp add: simulate_qkd_satellite_def random_bit_string_eq matching_indices_of_bits
      extract_bits_filter Let_def estimate_qber_eq key_bytes_of_bits split: if_splits)


lemma run_key_size_ge: "16 \<le> run_key_size t"
  by (simp add: run_key_size_def reduce_key_size_ge)

lemma run_key_bytes_nonempty: "run_key_bytes t \<noteq> []"
proof -
  have "0 < nat (run_key_size t)" using run_key_size_ge [of t] by simp
  then have "bits_at t (3 * sequence_length + 1) (nat (run_key_size t)) \<noteq> []"
    by (metis length_bits_at length_greater_0_conv)
  then show ?thesis by (simp add: run_key_bytes_def key_chunks_nonempty)
qed

lemma length_run_keystream: "length (run_keystream t n) = n"
  using repeat_key_covers [OF run_key_bytes_nonempty, of n t]
  by (simp add: run_keystream_def)

lemma cipher_roundtrip:
  "xor_bytes (xor_bytes mb (run_keystream t (length mb))) (run_keystream t (length mb)) = mb"
  by (rule xor_bytes_involution) (rule length_run_keystream)

lemma simulate_success:
  assumes "utf8_encode message = Inr mb"
  shows "simulate_qkd_satellite message si t = Inr (run_result message mb si t)"
proof -
  have ks: "0 \<le> run_key_size t" using run_key_size_ge [of t] by simp
  have rk: "repeat_key (run_key_bytes t) (length mb) =
        Inr (concat (replicate (length mb div length (run_key_bytes t) + 1) (run_key_bytes t)))"
    using run_key_bytes_nonempty [of t] by (simp add: repeat_key_def)
  have len: "length (xor_bytes mb (run_keystream t (length mb))) = length mb"
    by (simp add: xor_bytes_length length_run_keystream)
  have dec: "utf8_decode mb = Inr message" using assms by (rule utf8_roundtrip)
  have p: "sequence_length + sequence_length + sequence_length = 3 * sequence_length" by simp
  have n5: "\<And>x::nat. 5 + x = Suc (Suc (Suc (Suc (Suc x))))" by simp
  have n4: "\<And>x::nat. 4 + x = Suc (Suc (Suc (Suc x)))" by simp
  show ?thesis
    unfolding simulate_qkd_satellite_def
    apply (simp only: random_bit_string_eq bind_err_Inr prod.case add_0 matching_indices_of_bits
        extract_bits_filter Let_def length_map)
    apply (simp only: run_indices_def [symmetric] estimate_qber_eq p)
    apply (simp only: if_distrib [of "\<lambda>x. case_prod _ x"] prod.case
        run_key_size_def [symmetric] ks [THEN leD] if_False random_bit_string_eq bind_err_Inr
        key_bytes_of_bits run_key_bytes_def [symmetric] assms rk
        run_keystream_def [symmetric] len cipher_roundtrip dec cong: if_cong)
    apply (simp add: uniform_eq randint_50_200 assess_security_eq run_result_def Let_def
        case_prod_beta mult_2 n5 n4)
    done
qed

subsection \<open>The security timeline\<close>

lemma simulate_cases:
  assumes "simulate_qkd_satellite message si t = Inr r"
  obtains mb where "utf8_encode message = Inr mb" and "r = run_result message mb si t"
proof (cases "utf8_encode message")
  case (Inl e)
  with assms simulate_encode_error [of message e si t] show ?thesis by simp
next
  case (Inr mb)
  with assms simulate_success [of message mb si t] that show ?thesis by simp
qed

lemma timeline_loop_Suc:
  "timeline_loop (Suc n) d t p acc = timeline_loop n d t (p + 2) (acc @ [timeline_sample d t p])"
  by (simp add: timeline_sample_def uniform_eq random_sample_def)

lemma timeline_loop_length:
  "length (fst (timeline_loop n d t p acc)) = length acc + n"
proof (induction n arbitrary: p acc)
  case 0
  then show ?case by simp
next
  case (Suc n)
  show ?case unfolding timeline_loop_Suc Suc.IH by simp
qed

lemma timeline_sample_ok: "sample_ok d (timeline_sample d t p)"
  using uniform_range [of 12 25 t p] uniform_range [of 1 8 t p]
  by (simp add: sample_ok_def timeline_sample_def)

lemma timeline_loop_samples:
  "\<forall>s \<in> set acc. sample_ok d s \<Longrightarrow>
   \<forall>s \<in> set (fst (timeline_loop n d t p acc)). sample_ok d s"
proof (induction n arbitrary: p acc)
  case 0
  then show ?case by simp
next
  case (Suc n)
  from Suc.prems have "\<forall>s \<in> set (acc @ [timeline_sample d t p]). sample_ok d s"
    by (simp add: timeline_sample_ok)
  then show ?case unfolding timeline_loop_Suc by (rule Suc.IH)
qed

lemma utf8_encode_Hi: "utf8_encode [72, 105] = Inr [72, 105]"
  by (simp add: utf8_encode_def utf8_encode_cp_def)

lemma run_on_Hi:
  "simulate_qkd_satellite [72, 105] si t = Inr (run_result [72, 105] [72, 105] si t)"
  using utf8_encode_Hi by (rule simulate_success)



lemma length_filter_upt_card: "length (filter P [0..<n]) = card {i. i < n \<and> P i}"
proof -
  have "distinct (filter P [0..<n])" by simp
  then have "card (set (filter P [0..<n])) = length (filter P [0..<n])"
    by (rule distinct_card)
  moreover have "set (filter P [0..<n]) = {i. i < n \<and> P i}" by auto
  ultimately show ?thesis by simp
qed

lemma leakage_bound_strict_antimono: "a < b \<Longrightarrow> leakage_bound b < leakage_bound a"
  unfolding leakage_bound_def by (rule powr_less_mono) simp_all

lemma nonempty_message_runs:
  "fst (run_simulation [72, 105] False t)
     = [SetStatus ''Running simulation...'',
        LogEntry (ascii ''Starting simulation with message: '' @ [39, 72, 105, 39])]
       @ progress_events @ [DisplayResults (run_result [72, 105] [72, 105] False t)]"
  by (simp add: run_simulation_def run_on_Hi)

















section \<open>The claims\<close>

text \<open>
  C6. For every run, the security timeline contains exactly 20 samples; when
  \<open>intercept_detected\<close> holds, each sample's \<open>qber\<close> lies in \<open>[12, 25]\<close> and its status is
  \<open>WARNING\<close> or \<open>ALERT\<close>; otherwise each sample's \<open>qber\<close> lies in \<open>[1, 8]\<close> and its
  status is \<open>SECURE\<close> or \<open>CHECK\<close>.
\<close>

theorem timeline_twenty_samples:
  assumes "simulate_qkd_satellite message simulate_interception t = Inr r"
  shows "length (security_timeline r) = 20
    \<and> (\<forall>s \<in> set (security_timeline r).
          if intercept_detected r
          then 12 \<le> sample_qber s \<and> sample_qber s \<le> 25
               \<and> (sample_status s = ''WARNING'' \<or> sample_status s = ''ALERT'')
          else 1 \<le> sample_qber s \<and> sample_qber s \<le> 8
               \<and> (sample_status s = ''SECURE'' \<or> sample_status s = ''CHECK''))"
proof -
  from assms obtain mb where r: "r = run_result message mb simulate_interception t"
    by (rule simulate_cases)
  let ?p = "3 * sequence_length + 1 + nat (run_key_size t)"
  let ?q = "if simulate_interception then ?p + 4 else ?p + 2"
  have tl: "security_timeline r = fst (timeline_loop 20 simulate_interception t ?q [])"
    and d: "intercept_detected r = simulate_interception"
    by (simp_all add: r run_result_def Let_def)
  have "\<forall>s \<in> set (fst (timeline_loop 20 simulate_interception t ?q [])).
          sample_ok simulate_interception s"
    by (rule timeline_loop_samples) simp
  then show ?thesis
    unfolding tl d by (simp add: timeline_loop_length sample_ok_def)
qed

text \<open>The run on the message \<open>Hi\<close> with interception, on the all-zero stream.\<close>

theorem timeline_twenty_samples_witness:
  "\<exists>r. simulate_qkd_satellite [72, 105] True (\<lambda>_. 0) = Inr r
     \<and> length (security_timeline r) = 20
     \<and> (\<forall>s \<in> set (security_timeline r).
          if intercept_detected r
          then 12 \<le> sample_qber s \<and> sample_qber s \<le> 25
               \<and> (sample_status s = ''WARNING'' \<or> sample_status s = ''ALERT'')
          else 1 \<le> sample_qber s \<and> sample_qber s \<le> 8
               \<and> (sample_status s = ''SECURE'' \<or> sample_status s = ''CHECK''))"
proof -
  have run: "simulate_qkd_satellite [72, 105] True (\<lambda>_. 0)
             = Inr (run_result [72, 105] [72, 105] True (\<lambda>_. 0))"
    using utf8_encode_Hi by (rule simulate_success)
  from timeline_twenty_samples [OF run] run show ?thesis by blast
qed

text \<open>
  C4. For every run: if \<open>simulate_interception\<close> is true then \<open>qber\<close> lies in
  \<open>[15.0, 25.0]\<close> and \<open>intercept_detected\<close> is true; if it is false then \<open>qber\<close> lies in
  \<open>[2.0, 8.0]\<close> and \<open>intercept_detected\<close> equals \<open>qber > 11.0\<close>; the published
  \<open>qber_threshold\<close> is the constant \<open>10.0\<close>.
\<close>

theorem qber_and_detection:
  assumes "simulate_qkd_satellite message simulate_interception t = Inr r"
  shows "(simulate_interception \<longrightarrow>
            15.0 \<le> qber r \<and> qber r \<le> 25.0 \<and> intercept_detected r)
       \<and> (\<not> simulate_interception \<longrightarrow>
            2.0 \<le> qber r \<and> qber r \<le> 8.0 \<and> intercept_detected r = (qber r > 11.0))
       \<and> qber_threshold r = 10.0"
proof -
  from assms obtain mb where r: "r = run_result message mb simulate_interception t"
    by (rule simulate_cases)
  show ?thesis
    using uniform_range [of 15 25 t "3 * sequence_length"]
      uniform_range [of 2 8 t "3 * sequence_length"]
    by (simp add: r run_result_def Let_def)
qed

text \<open>Both settings of the check box, on the message \<open>Hi\<close> and the all-zero stream.\<close>

theorem qber_and_detection_witness:
  "(\<exists>r. simulate_qkd_satellite [72, 105] True (\<lambda>_. 0) = Inr r
        \<and> 15.0 \<le> qber r \<and> qber r \<le> 25.0 \<and> intercept_detected r
        \<and> qber_threshold r = 10.0)
 \<and> (\<exists>r. simulate_qkd_satellite [72, 105] False (\<lambda>_. 0) = Inr r
        \<and> 2.0 \<le> qber r \<and> qber r \<le> 8.0 \<and> intercept_detected r = (qber r > 11.0)
        \<and> qber_threshold r = 10.0)"
  using qber_and_detection [OF run_on_Hi [of True "\<lambda>_. 0"]]
    qber_and_detection [OF run_on_Hi [of False "\<lambda>_. 0"]]
    run_on_Hi [of True "\<lambda>_. 0"] run_on_Hi [of False "\<lambda>_. 0"]
  by simp

text \<open>
  C10. For every run with \<open>simulate_interception = False\<close> and every outcome of the
  generator, \<open>qber\<close> stays at or below \<open>8.0\<close>, so it never exceeds the cutoff \<open>11.0\<close>:
  \<open>intercept_detected\<close> is false, \<open>security_status\<close> and \<open>channel_security\<close> are
  \<open>SECURE\<close>, \<open>compromise_estimate\<close> is \<open>0.0\<close> and \<open>confidence_level\<close> is \<open>99.9\<close>.
\<close>

theorem no_detection_without_interception:
  assumes "simulate_qkd_satellite message False t = Inr r"
  shows "qber r \<le> 8.0 \<and> \<not> qber r > 11.0 \<and> \<not> intercept_detected r
       \<and> security_status r = ''SECURE'' \<and> channel_security r = ''SECURE''
       \<and> compromise_estimate r = 0.0 \<and> confidence_level r = 99.9"
proof -
  from assms obtain mb where r: "r = run_result message mb False t"
    by (rule simulate_cases)
  show ?thesis
    using uniform_range [of 2 8 t "3 * sequence_length"]
    by (simp add: r run_result_def Let_def)
qed

text \<open>The stream whose every raw output is the largest 53-bit value, which gives the
  highest error rate the generator can produce.\<close>

theorem no_detection_without_interception_witness:
  "\<exists>r. simulate_qkd_satellite [72, 105] False (\<lambda>_. 2 ^ 53 - 1) = Inr r
     \<and> \<not> intercept_detected r
     \<and> security_status r = ''SECURE'' \<and> channel_security r = ''SECURE''
     \<and> compromise_estimate r = 0.0 \<and> confidence_level r = 99.9"
  using no_detection_without_interception [OF run_on_Hi [of False "\<lambda>_. 2 ^ 53 - 1"]]
    run_on_Hi [of False "\<lambda>_. 2 ^ 53 - 1"]
  by simp



text \<open>
  C3. For every pair of basis sequences of length \<open>N = 1024\<close> a run draws:
  \<open>matching_bases\<close> is the number of indices \<open>i\<close> with \<open>alice_bases[i] = bob_bases[i]\<close>,
  \<open>matching_percentage\<close> is \<open>matching_bases / N * 100\<close>, the matching indices are collected
  in ascending order, the raw key is the subsequence of \<open>raw_bits\<close> at those indices in that
  order, and \<open>raw_key_size\<close> equals \<open>matching_bases\<close>.
\<close>

theorem basis_reconciliation:
  assumes "simulate_qkd_satellite message simulate_interception t = Inr r"
  shows "sequence_length = 1024
       \<and> length (alice_bases r) = sequence_length \<and> length (bob_bases r) = sequence_length
       \<and> matching_bases r =
           int (card {i. i < sequence_length \<and> alice_bases r ! i = bob_bases r ! i})
       \<and> matching_percentage r = real_of_int (matching_bases r) / real sequence_length * 100
       \<and> (\<exists>raw_bits matching_indices.
             random_bit_string sequence_length t (2 * sequence_length)
               = Inr (raw_bits, 3 * sequence_length)
           \<and> matching_indices_of sequence_length (alice_bases r) (bob_bases r)
               = Inr matching_indices
           \<and> sorted_wrt (<) matching_indices
           \<and> set matching_indices
               = {i. i < sequence_length \<and> alice_bases r ! i = bob_bases r ! i}
           \<and> raw_key r = map (\<lambda>i. raw_bits ! i) matching_indices)
       \<and> raw_key_size r = matching_bases r"
proof -
  from assms obtain mb where r: "r = run_result message mb simulate_interception t"
    by (rule simulate_cases)
  have al: "alice_bases r = bits_at t 0 sequence_length"
    and bo: "bob_bases r = bits_at t sequence_length sequence_length"
    and mb: "matching_bases r = int (length (run_indices t))"
    and mp: "matching_percentage r
             = real_of_int (int (length (run_indices t))) / real sequence_length * 100"
    and rk: "raw_key r
             = map (\<lambda>i. bits_at t (2 * sequence_length) sequence_length ! i) (run_indices t)"
    and rs: "raw_key_size r = int (length (run_indices t))"
    by (simp_all add: r run_result_def Let_def)
  have idx: "run_indices t
      = filter (\<lambda>i. alice_bases r ! i = bob_bases r ! i) [0..<sequence_length]"
    by (simp add: run_indices_def al bo)
  have card: "length (run_indices t)
      = card {i. i < sequence_length \<and> alice_bases r ! i = bob_bases r ! i}"
    unfolding idx by (rule length_filter_upt_card)
  have 1: "random_bit_string sequence_length t (2 * sequence_length)
         = Inr (bits_at t (2 * sequence_length) sequence_length, 3 * sequence_length)"
    by (simp add: random_bit_string_eq)
  have 2: "matching_indices_of sequence_length (alice_bases r) (bob_bases r)
         = Inr (run_indices t)"
    unfolding al bo by (simp add: matching_indices_of_bits run_indices_def)
  have 3: "sorted_wrt (<) (run_indices t)"
    unfolding idx by (intro sorted_wrt_filter sorted_wrt_upt)
  have 4: "set (run_indices t)
         = {i. i < sequence_length \<and> alice_bases r ! i = bob_bases r ! i}"
    unfolding idx by auto
  from 1 2 3 4 rk have ex: "\<exists>raw_bits matching_indices.
             random_bit_string sequence_length t (2 * sequence_length)
               = Inr (raw_bits, 3 * sequence_length)
           \<and> matching_indices_of sequence_length (alice_bases r) (bob_bases r)
               = Inr matching_indices
           \<and> sorted_wrt (<) matching_indices
           \<and> set matching_indices
               = {i. i < sequence_length \<and> alice_bases r ! i = bob_bases r ! i}
           \<and> raw_key r = map (\<lambda>i. raw_bits ! i) matching_indices"
    by blast
  have len: "length (alice_bases r) = sequence_length" "length (bob_bases r) = sequence_length"
    by (simp_all add: al bo)
  have pct: "matching_percentage r = real_of_int (matching_bases r) / real sequence_length * 100"
    by (simp add: mp mb)
  have mbc: "matching_bases r =
           int (card {i. i < sequence_length \<and> alice_bases r ! i = bob_bases r ! i})"
    by (simp add: mb card)
  have rsm: "raw_key_size r = matching_bases r" by (simp add: rs mb)
  show ?thesis
    by (intro conjI) (fact sequence_length_def len mbc pct ex rsm)+
qed

text \<open>
  The run on the message \<open>Hi\<close> without interception, on the all-zero stream.
\<close>

theorem basis_reconciliation_witness:
  "\<exists>r. simulate_qkd_satellite [72, 105] False (\<lambda>_. 0) = Inr r
     \<and> length (alice_bases r) = sequence_length \<and> length (bob_bases r) = sequence_length
     \<and> matching_bases r =
           int (card {i. i < sequence_length \<and> alice_bases r ! i = bob_bases r ! i})
     \<and> matching_percentage r = real_of_int (matching_bases r) / real sequence_length * 100
     \<and> raw_key_size r = matching_bases r"
proof -
  let ?r = "run_result [72, 105] [72, 105] False (\<lambda>_. 0)"
  have run: "simulate_qkd_satellite [72, 105] False (\<lambda>_. 0) = Inr ?r" by (rule run_on_Hi)
  note claim = basis_reconciliation [OF run]
  from claim have a: "length (alice_bases ?r) = sequence_length" by (elim conjE)
  from claim have b: "length (bob_bases ?r) = sequence_length" by (elim conjE)
  from claim have c: "matching_bases ?r =
           int (card {i. i < sequence_length \<and> alice_bases ?r ! i = bob_bases ?r ! i})"
    by (elim conjE)
  from claim have d: "matching_percentage ?r
      = real_of_int (matching_bases ?r) / real sequence_length * 100"
    by (elim conjE)
  from claim have e: "raw_key_size ?r = matching_bases ?r" by (elim conjE)
  show ?thesis
    by (intro exI [of _ ?r] conjI) (fact run a b c d e)+
qed



text \<open>
  C5 says \<open>security_parameter\<close> is a uniform random integer in \<open>[50, 200]\<close>, so that
  \<open>200\<close> is one of its values. \<^verbatim>\<open>np.random.randint(50, 200)\<close> excludes its upper end: no
  generator output makes a run end with \<open>security_parameter = 200\<close>.
\<close>

theorem security_parameter_200_counterexample:
  "\<not> (\<exists>t r. simulate_qkd_satellite [72, 105] False t = Inr r \<and> security_parameter r = 200)"
proof
  assume "\<exists>t r. simulate_qkd_satellite [72, 105] False t = Inr r \<and> security_parameter r = 200"
  then obtain t r where run: "simulate_qkd_satellite [72, 105] False t = Inr r"
    and sp: "security_parameter r = 200" by blast
  from run run_on_Hi [of False t] have "r = run_result [72, 105] [72, 105] False t" by simp
  then have "security_parameter r
      = 50 + int (t (3 * sequence_length + 1 + nat (run_key_size t) + 1) mod 150)"
    by (simp add: run_result_def Let_def)
  moreover have "t (3 * sequence_length + 1 + nat (run_key_size t) + 1) mod 150 < 150" by simp
  ultimately show False using sp by linarith
qed

text \<open>
  C5, amended. For every run, if \<open>intercept_detected\<close> then \<open>security_status\<close> is
  \<open>COMPROMISED\<close>, \<open>channel_security\<close> is \<open>INSECURE\<close>, \<open>compromise_estimate\<close> lies in
  \<open>[20, 60]\<close> and \<open>confidence_level\<close> in \<open>[70, 99]\<close>; otherwise both are \<open>SECURE\<close>,
  \<open>compromise_estimate\<close> is \<open>0.0\<close> and \<open>confidence_level\<close> is \<open>99.9\<close>. In both branches
  \<open>security_parameter\<close> is an integer in \<open>[50, 199]\<close>, each of these values is produced by
  some generator output, and \<open>max_leakage = 2 ** (-security_parameter / 8)\<close>, which is
  strictly decreasing in \<open>security_parameter\<close>.
\<close>

theorem security_assessment:
  assumes "simulate_qkd_satellite message simulate_interception t = Inr r"
  shows "(intercept_detected r \<longrightarrow>
            security_status r = ''COMPROMISED'' \<and> channel_security r = ''INSECURE''
          \<and> 20 \<le> compromise_estimate r \<and> compromise_estimate r \<le> 60
          \<and> 70 \<le> confidence_level r \<and> confidence_level r \<le> 99)
       \<and> (\<not> intercept_detected r \<longrightarrow>
            security_status r = ''SECURE'' \<and> channel_security r = ''SECURE''
          \<and> compromise_estimate r = 0.0 \<and> confidence_level r = 99.9)
       \<and> 50 \<le> security_parameter r \<and> security_parameter r \<le> 199
       \<and> (\<forall>v. 50 \<le> v \<and> v \<le> 199 \<longrightarrow>
             (\<exists>t' r'. simulate_qkd_satellite message simulate_interception t' = Inr r'
                     \<and> security_parameter r' = v))
       \<and> max_leakage r = 2 powr (- real_of_int (security_parameter r) / 8)
       \<and> max_leakage r = leakage_bound (security_parameter r)
       \<and> (\<forall>a b. a < b \<longrightarrow> leakage_bound b < leakage_bound a)"
proof -
  from assms obtain mb where enc: "utf8_encode message = Inr mb"
    and r: "r = run_result message mb simulate_interception t"
    by (rule simulate_cases)
  let ?p = "3 * sequence_length + 1 + nat (run_key_size t)"
  have det: "intercept_detected r
     \<Longrightarrow> security_status r = ''COMPROMISED'' \<and> channel_security r = ''INSECURE''
          \<and> 20 \<le> compromise_estimate r \<and> compromise_estimate r \<le> 60
          \<and> 70 \<le> confidence_level r \<and> confidence_level r \<le> 99"
    using uniform_range [of 20 60 t "?p + 2"] uniform_range [of 70 99 t "?p + 3"]
    by (simp add: r run_result_def Let_def)
  have nodet: "\<not> intercept_detected r
     \<Longrightarrow> security_status r = ''SECURE'' \<and> channel_security r = ''SECURE''
          \<and> compromise_estimate r = 0.0 \<and> confidence_level r = 99.9"
    by (simp add: r run_result_def Let_def)
  have sp: "security_parameter r = 50 + int (t (?p + 1) mod 150)"
    by (simp add: r run_result_def Let_def)
  have "t (?p + 1) mod 150 < 150" by simp
  then have lo: "50 \<le> security_parameter r" and hi: "security_parameter r \<le> 199"
    unfolding sp by linarith+
  have reach: "\<exists>t' r'. simulate_qkd_satellite message simulate_interception t' = Inr r'
                     \<and> security_parameter r' = v"
    if v: "50 \<le> v \<and> v \<le> 199" for v
  proof -
    let ?t' = "\<lambda>_::nat. nat (v - 50)"
    let ?r' = "run_result message mb simulate_interception ?t'"
    have run': "simulate_qkd_satellite message simulate_interception ?t' = Inr ?r'"
      using enc by (rule simulate_success)
    have "nat (v - 50) < 150" using v by linarith
    then have "nat (v - 50) mod 150 = nat (v - 50)" by (rule mod_less)
    then have "security_parameter ?r' = v"
      using v by (simp add: run_result_def Let_def)
    with run' show ?thesis by blast
  qed
  have ml: "max_leakage r = leakage_bound (security_parameter r)"
    by (simp add: r run_result_def Let_def)
  then have ml2: "max_leakage r = 2 powr (- real_of_int (security_parameter r) / 8)"
    by (simp add: leakage_bound_def)
  show ?thesis
  proof (intro conjI allI impI)
    fix a b :: int
    assume "a < b"
    then show "leakage_bound b < leakage_bound a" by (rule leakage_bound_strict_antimono)
  next
    fix v :: int
    assume "50 \<le> v \<and> v \<le> 199"
    then show "\<exists>t' r'. simulate_qkd_satellite message simulate_interception t' = Inr r'
                     \<and> security_parameter r' = v"
      by (rule reach)
  qed (use det nodet lo hi ml ml2 in simp_all)
qed

text \<open>
  The run on the message \<open>Hi\<close> with interception, on the all-zero stream.
\<close>

theorem security_assessment_witness:
  "\<exists>r. simulate_qkd_satellite [72, 105] True (\<lambda>_. 0) = Inr r
     \<and> intercept_detected r
     \<and> security_status r = ''COMPROMISED'' \<and> channel_security r = ''INSECURE''
     \<and> 20 \<le> compromise_estimate r \<and> compromise_estimate r \<le> 60
     \<and> 70 \<le> confidence_level r \<and> confidence_level r \<le> 99
     \<and> 50 \<le> security_parameter r \<and> security_parameter r \<le> 199
     \<and> max_leakage r = leakage_bound (security_parameter r)
     \<and> leakage_bound 51 < leakage_bound 50"
proof -
  let ?r = "run_result [72, 105] [72, 105] True (\<lambda>_. 0)"
  have run: "simulate_qkd_satellite [72, 105] True (\<lambda>_. 0) = Inr ?r" by (rule run_on_Hi)
  have d: "intercept_detected ?r" by (simp add: run_result_def Let_def)
  note claim = security_assessment [OF run]
  note a = claim [THEN conjunct1, THEN mp, OF d]
  note a1 = a [THEN conjunct1]
  note a2 = a [THEN conjunct2, THEN conjunct1]
  note a3 = a [THEN conjunct2, THEN conjunct2, THEN conjunct1]
  note a4 = a [THEN conjunct2, THEN conjunct2, THEN conjunct2, THEN conjunct1]
  note a5 = a [THEN conjunct2, THEN conjunct2, THEN conjunct2, THEN conjunct2, THEN conjunct1]
  note a6 = a [THEN conjunct2, THEN conjunct2, THEN conjunct2, THEN conjunct2, THEN conjunct2]
  note rest = claim [THEN conjunct2, THEN conjunct2]
  note b = rest [THEN conjunct1]
  note c = rest [THEN conjunct2, THEN conjunct1]
  note e = rest [THEN conjunct2, THEN conjunct2, THEN conjunct2, THEN conjunct2, THEN conjunct1]
  note mono = rest [THEN conjunct2, THEN conjunct2, THEN conjunct2, THEN conjunct2,
      THEN conjunct2]
  have f: "leakage_bound 51 < leakage_bound 50"
    by (rule mono [THEN spec, THEN spec, THEN mp]) simp
  show ?thesis
    by (intro exI [of _ ?r] conjI) (fact run d a1 a2 a3 a4 a5 a6 b c e f)+
qed

text \<open>
  C7. A request with an empty message is rejected before any simulation work: the only
  thing \<^verbatim>\<open>run_simulation\<close> does is show the error box, it raises nothing, and no part of
  the pipeline runs (no status change, no log entry, no progress step, no result).
\<close>

theorem empty_message_rejected:
  "run_simulation [] simulate_interception t
     = ([ShowError ''Error'' ''Please enter a message to encrypt''], None)
 \<and> (\<nexists>results. DisplayResults results \<in> set (fst (run_simulation [] simulate_interception t)))
 \<and> (\<nexists>v step. ProgressStep v step \<in> set (fst (run_simulation [] simulate_interception t)))
 \<and> (\<nexists>s. SetStatus s \<in> set (fst (run_simulation [] simulate_interception t)))
 \<and> (\<nexists>s. LogEntry s \<in> set (fst (run_simulation [] simulate_interception t)))"
  by (simp add: run_simulation_def)






end
